theory Spec2Isabelle
  imports Main
begin

unbundle bit_operations_syntax

section \<open>The EMC2101 driver of \<^verbatim>\<open>emc2101_conf.py\<close>\<close>

text \<open>
  The class \<^verbatim>\<open>Emc2101\<close> owns one \<^verbatim>\<open>smbus.SMBus\<close> handle and turns every
  property access into single-byte bus transactions. Python integers are unbounded, so
  register addresses, masks and data bytes are \<open>int\<close>; the bit operations \<open>|\<close>, \<open>&\<close>
  and \<open>~\<close> of Python are \<open>OR\<close>, \<open>AND\<close> and \<open>NOT\<close> on \<open>int\<close> (two's complement,
  infinitely sign-extended, as in Python).
\<close>

subsection \<open>The bus\<close>

text \<open>
  One transaction of the bus, as the driver issues it: the device address, the register
  address, and for a write the data byte handed over.
\<close>

datatype bus_event =
    ReadByteData int int
  | WriteByteData int int int

fun event_device :: "bus_event \<Rightarrow> int" where
  "event_device (ReadByteData dev reg) = dev"
| "event_device (WriteByteData dev reg v) = dev"

text \<open>
  The state behind the handle \<^verbatim>\<open>self.BUS\<close>: the register contents of every device on
  the bus, keyed by (device address, register address), and the transactions issued so
  far, oldest first.
\<close>

record smbus =
  regs :: "int \<times> int \<Rightarrow> int"
  trace :: "bus_event list"

text \<open>
  Modelled from the spec: the bus transport (\<^verbatim>\<open>smbus.SMBus\<close>) is an external library,
  not part of the source file. The spec describes it as a capability with one transaction
  per call, \<^verbatim>\<open>readByte(addr) -> byte\<close> and \<^verbatim>\<open>writeByte(addr, byte)\<close>. A read returns
  the addressed register; a write stores the value it is handed. Each call is recorded in
  the trace with its arguments exactly as passed. Transport failures are not modelled.
\<close>

definition read_byte_data :: "int \<Rightarrow> int \<Rightarrow> smbus \<Rightarrow> int \<times> smbus" where
  "read_byte_data dev reg b =
     (regs b (dev, reg), b\<lparr>trace := trace b @ [ReadByteData dev reg]\<rparr>)"

definition write_byte_data :: "int \<Rightarrow> int \<Rightarrow> int \<Rightarrow> smbus \<Rightarrow> smbus" where
  "write_byte_data dev reg v b =
     b\<lparr>regs := (regs b)((dev, reg) := v), trace := trace b @ [WriteByteData dev reg v]\<rparr>"

text \<open>A bus on which every register reads 0 and nothing has happened yet.\<close>

definition idle_bus :: smbus where
  "idle_bus = \<lparr>regs = (\<lambda>_. 0), trace = []\<rparr>"

subsection \<open>Python's range and indexing\<close>

datatype py_error = IndexError

text \<open>
  \<^verbatim>\<open>range(start, stop, step)\<close> for a positive step, as a list: it holds
  \<open>(stop - start + step - 1) div step\<close> elements when that is positive, none otherwise.
\<close>

definition py_range :: "int \<Rightarrow> int \<Rightarrow> int \<Rightarrow> int list" where
  "py_range start stop step =
     map (\<lambda>k. start + step * int k) [0..<nat ((stop - start + step - 1) div step)]"

text \<open>\<^verbatim>\<open>xs[i]\<close> for a non-negative index: IndexError at and beyond the length.\<close>

definition py_index :: "'a list \<Rightarrow> nat \<Rightarrow> py_error + 'a" where
  "py_index xs i = (if i < length xs then Inr (xs ! i) else Inl IndexError)"

subsection \<open>Constants of the class\<close>


definition CONFIG_MASK :: int where "CONFIG_MASK = 0x80"
definition CONFIG_STANDBY :: int where "CONFIG_STANDBY = 0x40"
definition CONFIG_FAN_STANDBY :: int where "CONFIG_FAN_STANDBY = 0x20"
definition CONFIG_DAC :: int where "CONFIG_DAC = 0x10"
definition CONFIG_DIS_TO :: int where "CONFIG_DIS_TO = 0x08"
definition CONFIG_ALT_TACH :: int where "CONFIG_ALT_TACH = 0x04"
definition CONFIG_TCRIT_OVR :: int where "CONFIG_TCRIT_OVR = 0x02"
definition CONFIG_QUEUE :: int where "CONFIG_QUEUE = 0x01"

text \<open>The eight bit masks of the configuration register, most significant first.\<close>

definition CONFIG_FLAGS :: "int list" where
  "CONFIG_FLAGS =
     [CONFIG_MASK, CONFIG_STANDBY, CONFIG_FAN_STANDBY, CONFIG_DAC,
      CONFIG_DIS_TO, CONFIG_ALT_TACH, CONFIG_TCRIT_OVR, CONFIG_QUEUE]"

definition TEMP_FAULT_OPENCIRCUIT :: int where "TEMP_FAULT_OPENCIRCUIT = 0x3F8"
definition TEMP_FAULT_SHORT :: int where "TEMP_FAULT_SHORT = 0x3FF"

definition INTERNAL_TEMP :: int where "INTERNAL_TEMP = 0x00"
definition REG_CONFIG :: int where "REG_CONFIG = 0x03"

definition REG_LOOKUP_T :: "int list" where
  "REG_LOOKUP_T = py_range 0x50 0x5F 2"

definition REG_LOOKUP_S :: "int list" where
  "REG_LOOKUP_S = py_range 0x51 (0x5F + 1) 2"

definition I2CADDRESS :: int where "I2CADDRESS = 0x4C"

subsection \<open>Register access\<close>

text \<open>
  \<^verbatim>\<open>_read\<close>, \<^verbatim>\<open>_write\<close> and \<^verbatim>\<open>_writeBool\<close> (an Isabelle name cannot start with an
  underscore). Each takes the bus state and returns the new one.
\<close>

definition priv_read :: "int \<Rightarrow> smbus \<Rightarrow> int \<times> smbus" where
  "priv_read register_address b = read_byte_data I2CADDRESS register_address b"

definition priv_write :: "int \<Rightarrow> int \<Rightarrow> smbus \<Rightarrow> smbus" where
  "priv_write register_address data_byte b =
     write_byte_data I2CADDRESS register_address data_byte b"

definition priv_writeBool :: "int \<Rightarrow> int \<Rightarrow> bool \<Rightarrow> smbus \<Rightarrow> smbus" where
  "priv_writeBool register_address registermask val b =
     (case priv_read register_address b of (reg, b1) \<Rightarrow>
        if val then priv_write register_address (reg OR registermask) b1
        else priv_write register_address (reg AND NOT registermask) b1)"

subsection \<open>Properties\<close>

text \<open>\<^verbatim>\<open>internalTemp\<close>: \<^verbatim>\<open>int(...)\<close> of a Python integer is that integer.\<close>

definition internalTemp :: "smbus \<Rightarrow> int \<times> smbus" where
  "internalTemp b = priv_read INTERNAL_TEMP b"

text \<open>\<^verbatim>\<open>dacMode\<close>: \<^verbatim>\<open>bool(n)\<close> of an integer is \<open>n \<noteq> 0\<close>.\<close>

definition dacMode :: "smbus \<Rightarrow> bool \<times> smbus" where
  "dacMode b =
     (case priv_read REG_CONFIG b of (reg, b1) \<Rightarrow> (reg AND CONFIG_DAC \<noteq> 0, b1))"

definition dacMode_setter :: "bool \<Rightarrow> smbus \<Rightarrow> smbus" where
  "dacMode_setter val b = priv_writeBool REG_CONFIG CONFIG_DAC val b"

text \<open>
  The getter of \<^verbatim>\<open>fanControlLookupTable\<close>: a list comprehension over \<^verbatim>\<open>range(8)\<close>.
  Both components of the tuple index \<^verbatim>\<open>REG_LOOKUP_T\<close>, as the source does. The bus
  state is returned also when an index raises.
\<close>

fun lut_get_loop :: "nat list \<Rightarrow> smbus \<Rightarrow> (py_error + (int \<times> int) list) \<times> smbus" where
  "lut_get_loop [] b = (Inr [], b)"
| "lut_get_loop (i # rest) b =
     (case py_index REG_LOOKUP_T i of
        Inl e \<Rightarrow> (Inl e, b)
      | Inr a1 \<Rightarrow>
          (case priv_read a1 b of (x, b1) \<Rightarrow>
             (case py_index REG_LOOKUP_T i of
                Inl e \<Rightarrow> (Inl e, b1)
              | Inr a2 \<Rightarrow>
                  (case priv_read a2 b1 of (y, b2) \<Rightarrow>
                     (case lut_get_loop rest b2 of
                        (Inl e, b3) \<Rightarrow> (Inl e, b3)
                      | (Inr ps, b3) \<Rightarrow> (Inr ((x, y) # ps), b3))))))"

definition fanControlLookupTable :: "smbus \<Rightarrow> (py_error + (int \<times> int) list) \<times> smbus" where
  "fanControlLookupTable b = lut_get_loop [0..<8] b"

text \<open>
  The setter of \<^verbatim>\<open>fanControlLookupTable\<close>: \<^verbatim>\<open>for i in range(len(value))\<close>. In each
  round \<^verbatim>\<open>value[i]\<close> is unpacked, then \<^verbatim>\<open>REG_LOOKUP_T[i]\<close> is indexed and written, then
  \<^verbatim>\<open>REG_LOOKUP_S[i]\<close>. An index that raises ends the loop; what was written stays.
\<close>

fun lut_set_loop :: "nat list \<Rightarrow> (int \<times> int) list \<Rightarrow> smbus \<Rightarrow> (py_error + unit) \<times> smbus" where
  "lut_set_loop [] val b = (Inr (), b)"
| "lut_set_loop (i # rest) val b =
     (case py_index val i of
        Inl e \<Rightarrow> (Inl e, b)
      | Inr (x, y) \<Rightarrow>
          (case py_index REG_LOOKUP_T i of
             Inl e \<Rightarrow> (Inl e, b)
           | Inr a1 \<Rightarrow>
               (case py_index REG_LOOKUP_S i of
                  Inl e \<Rightarrow> (Inl e, priv_write a1 x b)
                | Inr a2 \<Rightarrow> lut_set_loop rest val (priv_write a2 y (priv_write a1 x b)))))"

definition fanControlLookupTable_setter ::
    "(int \<times> int) list \<Rightarrow> smbus \<Rightarrow> (py_error + unit) \<times> smbus" where
  "fanControlLookupTable_setter val b = lut_set_loop [0..<length val] val b"

subsection \<open>The operations of a device handle\<close>

text \<open>
  Every method and property of the class that touches the bus, as a value, and the bus
  state it leaves (also when it raises). The constructor and \<^verbatim>\<open>close\<close> only open and
  release the handle; they issue no register transaction.
\<close>

datatype operation =
    Op_read int
  | Op_write int int
  | Op_writeBool int int bool
  | Op_internalTemp
  | Op_dacMode
  | Op_dacMode_setter bool
  | Op_fanControlLookupTable
  | Op_fanControlLookupTable_setter "(int \<times> int) list"

fun perform :: "operation \<Rightarrow> smbus \<Rightarrow> smbus" where
  "perform (Op_read a) b = snd (priv_read a b)"
| "perform (Op_write a v) b = priv_write a v b"
| "perform (Op_writeBool a m v) b = priv_writeBool a m v b"
| "perform Op_internalTemp b = snd (internalTemp b)"
| "perform Op_dacMode b = snd (dacMode b)"
| "perform (Op_dacMode_setter v) b = dacMode_setter v b"
| "perform Op_fanControlLookupTable b = snd (fanControlLookupTable b)"
| "perform (Op_fanControlLookupTable_setter val) b = snd (fanControlLookupTable_setter val b)"

section \<open>Basic facts\<close>

lemma upt_0_8: "[0..<8] = [0, 1, 2, 3, 4, 5, 6, 7::nat]"
  by (simp add: upt_rec)

lemma REG_LOOKUP_T_eq:
  "REG_LOOKUP_T = [0x50, 0x52, 0x54, 0x56, 0x58, 0x5A, 0x5C, 0x5E]"
  by (simp add: REG_LOOKUP_T_def py_range_def upt_0_8)

lemma REG_LOOKUP_S_eq:
  "REG_LOOKUP_S = [0x51, 0x53, 0x55, 0x57, 0x59, 0x5B, 0x5D, 0x5F]"
  by (simp add: REG_LOOKUP_S_def py_range_def upt_0_8)

subsection \<open>Register access and the lookup-table loops\<close>

lemma priv_read_eq:
  "priv_read a b = (regs b (0x4C, a), b\<lparr>trace := trace b @ [ReadByteData 0x4C a]\<rparr>)"
  by (simp add: priv_read_def read_byte_data_def I2CADDRESS_def)

lemma regs_priv_write: "regs (priv_write a v b) = (regs b)((0x4C, a) := v)"
  by (simp add: priv_write_def write_byte_data_def I2CADDRESS_def)

lemma trace_priv_write: "trace (priv_write a v b) = trace b @ [WriteByteData 0x4C a v]"
  by (simp add: priv_write_def write_byte_data_def I2CADDRESS_def)

lemma regs_priv_writeBool:
  "regs (priv_writeBool a m v b) =
     (regs b)((0x4C, a) := (if v then regs b (0x4C, a) OR m else regs b (0x4C, a) AND NOT m))"
  by (simp add: priv_writeBool_def priv_read_eq regs_priv_write)

lemma trace_priv_writeBool:
  "trace (priv_writeBool a m v b) =
     trace b @ [ReadByteData 0x4C a,
                WriteByteData 0x4C a
                  (if v then regs b (0x4C, a) OR m else regs b (0x4C, a) AND NOT m)]"
  by (simp add: priv_writeBool_def priv_read_eq trace_priv_write)

lemma length_REG_LOOKUP_T: "length REG_LOOKUP_T = 8"
  by (simp add: REG_LOOKUP_T_def py_range_def)

lemma length_REG_LOOKUP_S: "length REG_LOOKUP_S = 8"
  by (simp add: REG_LOOKUP_S_def py_range_def)

lemma nth_REG_LOOKUP_T: "i < 8 \<Longrightarrow> REG_LOOKUP_T ! i = 0x50 + 2 * int i"
  by (simp add: REG_LOOKUP_T_def py_range_def)

lemma nth_REG_LOOKUP_S: "i < 8 \<Longrightarrow> REG_LOOKUP_S ! i = 0x51 + 2 * int i"
  by (simp add: REG_LOOKUP_S_def py_range_def)

lemma py_index_T: "py_index REG_LOOKUP_T i = (if i < 8 then Inr (0x50 + 2 * int i) else Inl IndexError)"
  by (simp add: py_index_def length_REG_LOOKUP_T nth_REG_LOOKUP_T)

lemma py_index_S: "py_index REG_LOOKUP_S i = (if i < 8 then Inr (0x51 + 2 * int i) else Inl IndexError)"
  by (simp add: py_index_def length_REG_LOOKUP_S nth_REG_LOOKUP_S)

lemma lut_set_loop_Cons:
  "lut_set_loop (i # rest) val b =
     (if i < length val then
        if i < 8 then
          lut_set_loop rest val
            (priv_write (0x51 + 2 * int i) (snd (val ! i))
               (priv_write (0x50 + 2 * int i) (fst (val ! i)) b))
        else (Inl IndexError, b)
      else (Inl IndexError, b))"
  by (cases "val ! i") (simp add: py_index_T py_index_S py_index_def [of val])

lemma lut_set_loop_append:
  "lut_set_loop (is @ js) val b =
     (case lut_set_loop is val b of
        (Inl e, b') \<Rightarrow> (Inl e, b')
      | (Inr u, b') \<Rightarrow> lut_set_loop js val b')"
  by (induction "is" arbitrary: b) (simp_all add: lut_set_loop_Cons del: lut_set_loop.simps(2))

lemma lut_set_loop_ok:
  "\<forall>i\<in>set is. i < length val \<and> i < 8 \<Longrightarrow> fst (lut_set_loop is val b) = Inr ()"
  by (induction "is" arbitrary: b) (simp_all add: lut_set_loop_Cons del: lut_set_loop.simps(2))

lemma lut_set_loop_trace:
  "\<forall>i\<in>set is. i < length val \<and> i < 8 \<Longrightarrow>
   trace (snd (lut_set_loop is val b)) =
     trace b @ concat (map (\<lambda>i. [WriteByteData 0x4C (0x50 + 2 * int i) (fst (val ! i)),
                                  WriteByteData 0x4C (0x51 + 2 * int i) (snd (val ! i))]) is)"
  by (induction "is" arbitrary: b)
     (simp_all add: lut_set_loop_Cons trace_priv_write del: lut_set_loop.simps(2))

lemma lut_set_loop_frame:
  "\<forall>i\<in>set is. k \<noteq> (0x4C, 0x50 + 2 * int i) \<and> k \<noteq> (0x4C, 0x51 + 2 * int i) \<Longrightarrow>
   regs (snd (lut_set_loop is val b)) k = regs b k"
  by (induction "is" arbitrary: b)
     (simp_all add: lut_set_loop_Cons regs_priv_write del: lut_set_loop.simps(2))

lemma lut_set_loop_stored:
  "\<forall>i\<in>set is. i < length val \<and> i < 8 \<Longrightarrow> distinct is \<Longrightarrow> j \<in> set is \<Longrightarrow>
   regs (snd (lut_set_loop is val b)) (0x4C, 0x50 + 2 * int j) = fst (val ! j) \<and>
   regs (snd (lut_set_loop is val b)) (0x4C, 0x51 + 2 * int j) = snd (val ! j)"
proof (induction "is" arbitrary: b)
  case Nil
  then show ?case by simp
next
  case (Cons i rest)
  show ?case
  proof (cases "j = i")
    case True
    with Cons.prems have "\<forall>m\<in>set rest. (0x4C, 0x50 + 2 * int j) \<noteq> (0x4C::int, 0x50 + 2 * int m)
        \<and> (0x4C, 0x50 + 2 * int j) \<noteq> (0x4C::int, 0x51 + 2 * int m)"
      by auto presburger
    moreover from True Cons.prems have "\<forall>m\<in>set rest. (0x4C, 0x51 + 2 * int j) \<noteq> (0x4C::int, 0x50 + 2 * int m)
        \<and> (0x4C, 0x51 + 2 * int j) \<noteq> (0x4C::int, 0x51 + 2 * int m)"
      by auto presburger
    ultimately show ?thesis using Cons.prems True
      by (simp add: lut_set_loop_Cons lut_set_loop_frame regs_priv_write del: lut_set_loop.simps(2))
  next
    case False
    with Cons show ?thesis
      by (simp add: lut_set_loop_Cons del: lut_set_loop.simps(2))
  qed
qed

lemma lut_set_loop_take:
  "\<forall>i\<in>set is. i < n \<Longrightarrow> lut_set_loop is (take n val) b = lut_set_loop is val b"
  by (induction "is" arbitrary: b) (simp_all add: lut_set_loop_Cons del: lut_set_loop.simps(2))


lemma lut_set_loop_result:
  "fanControlLookupTable_setter val b =
     (if length val \<le> 8 then Inr () else Inl IndexError,
      snd (lut_set_loop [0..<min 8 (length val)] val b))"
proof (cases "length val \<le> 8")
  case True
  then have "fst (lut_set_loop [0..<length val] val b) = Inr ()"
    by (intro lut_set_loop_ok) simp
  with True show ?thesis
    by (simp add: fanControlLookupTable_setter_def prod_eq_iff min_def)
next
  case False
  then have "[0..<length val] = [0..<8] @ [8..<length val]"
    using upt_add_eq_append [of 0 8 "length val - 8"] by simp
  moreover from False have "[8..<length val] = 8 # [9..<length val]"
    using upt_conv_Cons [of 8 "length val"] by simp
  ultimately have split: "[0..<length val] = [0..<8] @ 8 # [9..<length val]"
    by simp
  from False have "fst (lut_set_loop [0..<8] val b) = Inr ()"
    by (intro lut_set_loop_ok) simp
  then obtain b' where "lut_set_loop [0..<8] val b = (Inr (), b')"
    by (cases "lut_set_loop [0..<8] val b") simp
  with False show ?thesis
    by (simp add: fanControlLookupTable_setter_def split lut_set_loop_append
        lut_set_loop_Cons min_def del: lut_set_loop.simps(2))
qed



lemma slot_addr_neq:
  "i \<noteq> j \<Longrightarrow> 0x50 + 2 * int j \<noteq> 0x50 + 2 * int i"
  "i \<noteq> j \<Longrightarrow> 0x51 + 2 * int j \<noteq> 0x51 + 2 * int i"
  "0x50 + 2 * int j \<noteq> 0x51 + 2 * int i"
  "0x51 + 2 * int j \<noteq> 0x50 + 2 * int i"
  by presburger+

subsection \<open>The getter loop and the device address\<close>

lemma lut_get_loop_Cons:
  "lut_get_loop (i # rest) b =
     (if i < 8 then
        (case lut_get_loop rest
                (b\<lparr>trace := trace b @ [ReadByteData 0x4C (0x50 + 2 * int i),
                                         ReadByteData 0x4C (0x50 + 2 * int i)]\<rparr>) of
           (Inl e, b3) \<Rightarrow> (Inl e, b3)
         | (Inr ps, b3) \<Rightarrow>
             (Inr ((regs b (0x4C, 0x50 + 2 * int i), regs b (0x4C, 0x50 + 2 * int i)) # ps), b3))
      else (Inl IndexError, b))"
  by (simp add: py_index_T priv_read_eq split: prod.splits sum.splits)

lemma lut_get_loop_value:
  "\<forall>i\<in>set is. i < 8 \<Longrightarrow>
   fst (lut_get_loop is b) =
     Inr (map (\<lambda>i. (regs b (0x4C, 0x50 + 2 * int i), regs b (0x4C, 0x50 + 2 * int i))) is) \<and>
   regs (snd (lut_get_loop is b)) = regs b"
proof (induction "is" arbitrary: b)
  case Nil
  then show ?case by simp
next
  case (Cons i rest)
  let ?b1 = "b\<lparr>trace := trace b @ [ReadByteData 0x4C (0x50 + 2 * int i),
                                      ReadByteData 0x4C (0x50 + 2 * int i)]\<rparr>"
  from Cons.prems have "\<forall>i\<in>set rest. i < 8" by simp
  from Cons.IH [OF this, of ?b1] Cons.prems show ?case
    by (cases "lut_get_loop rest ?b1")
       (simp add: lut_get_loop_Cons del: lut_get_loop.simps(2))
qed

lemma lut_get_loop_device:
  "\<exists>es. trace (snd (lut_get_loop is b)) = trace b @ es \<and> (\<forall>e\<in>set es. event_device e = 0x4C)"
proof (induction "is" arbitrary: b)
  case Nil
  then show ?case by simp
next
  case (Cons i rest)
  show ?case
  proof (cases "i < 8")
    case True
    let ?rs = "[ReadByteData 0x4C (0x50 + 2 * int i), ReadByteData 0x4C (0x50 + 2 * int i)]"
    let ?b1 = "b\<lparr>trace := trace b @ ?rs\<rparr>"
    from Cons.IH [of ?b1] obtain es where
      es: "trace (snd (lut_get_loop rest ?b1)) = trace ?b1 @ es" "\<forall>e\<in>set es. event_device e = 0x4C"
      by blast
    from True have "trace (snd (lut_get_loop (i # rest) b)) = trace (snd (lut_get_loop rest ?b1))"
      by (cases "lut_get_loop rest ?b1")
         (simp add: lut_get_loop_Cons split: sum.splits del: lut_get_loop.simps(2))
    with es have "trace (snd (lut_get_loop (i # rest) b)) = trace b @ (?rs @ es)
        \<and> (\<forall>e\<in>set (?rs @ es). event_device e = 0x4C)"
      by simp
    then show ?thesis by blast
  next
    case False
    then show ?thesis
      by (simp add: lut_get_loop_Cons del: lut_get_loop.simps(2))
  qed
qed

lemma lut_set_loop_device:
  "\<exists>es. trace (snd (lut_set_loop is val b)) = trace b @ es \<and> (\<forall>e\<in>set es. event_device e = 0x4C)"
proof (induction "is" arbitrary: b)
  case Nil
  then show ?case by simp
next
  case (Cons i rest)
  show ?case
  proof (cases "i < length val \<and> i < 8")
    case True
    let ?ws = "[WriteByteData 0x4C (0x50 + 2 * int i) (fst (val ! i)),
                WriteByteData 0x4C (0x51 + 2 * int i) (snd (val ! i))]"
    let ?b1 = "priv_write (0x51 + 2 * int i) (snd (val ! i))
                 (priv_write (0x50 + 2 * int i) (fst (val ! i)) b)"
    have t1: "trace ?b1 = trace b @ ?ws" by (simp add: trace_priv_write)
    from Cons.IH [of ?b1] obtain es where
      es: "trace (snd (lut_set_loop rest val ?b1)) = trace ?b1 @ es" "\<forall>e\<in>set es. event_device e = 0x4C"
      by blast
    from True have "lut_set_loop (i # rest) val b = lut_set_loop rest val ?b1"
      by (simp add: lut_set_loop_Cons del: lut_set_loop.simps(2))
    with es t1 have "trace (snd (lut_set_loop (i # rest) val b)) = trace b @ (?ws @ es)
        \<and> (\<forall>e\<in>set (?ws @ es). event_device e = 0x4C)"
      by simp
    then show ?thesis by blast
  next
    case False
    then have "lut_set_loop (i # rest) val b = (Inl IndexError, b)"
      by (auto simp add: lut_set_loop_Cons simp del: lut_set_loop.simps(2))
    then show ?thesis by simp
  qed
qed

lemma perform_device:
  "\<exists>es. trace (perform op b) = trace b @ es \<and> (\<forall>e\<in>set es. event_device e = 0x4C)"
proof (cases op)
  case Op_fanControlLookupTable
  then show ?thesis
    using lut_get_loop_device [of "[0..<8]" b]
    by (simp only: perform.simps fanControlLookupTable_def)
next
  case (Op_fanControlLookupTable_setter val)
  then show ?thesis
    using lut_set_loop_device [of "[0..<length val]" val b]
    by (simp only: perform.simps fanControlLookupTable_setter_def)
qed (simp_all add: priv_read_eq trace_priv_write trace_priv_writeBool internalTemp_def
      dacMode_def dacMode_setter_def)

subsection \<open>Flag bits\<close>

lemma bit_set_flag: "bit (r OR 2 ^ k) n \<longleftrightarrow> bit r n \<or> n = k" for r :: int
  by (auto simp add: bit_or_iff bit_exp_iff)

lemma bit_clear_flag: "bit (r AND NOT (2 ^ k)) n \<longleftrightarrow> bit r n \<and> n \<noteq> k" for r :: int
  by (auto simp add: bit_and_iff bit_not_iff bit_exp_iff)

lemma set_then_clear: "(r OR m) AND NOT m = r AND NOT m" for r m :: int
  by (rule bit_eqI) (auto simp add: bit_and_iff bit_or_iff bit_not_iff)

lemma clear_of_clear: "r AND m = 0 \<Longrightarrow> r AND NOT m = r" for r m :: int
proof (rule bit_eqI)
  fix n
  assume "r AND m = 0"
  then have "bit (r AND m) n = bit (0::int) n" by simp
  then show "bit (r AND NOT m) n \<longleftrightarrow> bit r n"
    by (auto simp add: bit_and_iff bit_not_iff)
qed

lemma config_flag_power: "F \<in> set CONFIG_FLAGS \<Longrightarrow> \<exists>k::nat. F = 2 ^ k"
proof -
  assume "F \<in> set CONFIG_FLAGS"
  then have "F \<in> (\<lambda>k. 2 ^ k) ` {7, 6, 5, 4, 3, 2, 1, 0::nat}"
    by (simp add: CONFIG_FLAGS_def CONFIG_MASK_def CONFIG_STANDBY_def
        CONFIG_FAN_STANDBY_def CONFIG_DAC_def CONFIG_DIS_TO_def CONFIG_ALT_TACH_def
        CONFIG_TCRIT_OVR_def CONFIG_QUEUE_def)
  then show ?thesis by blast
qed

lemma and_16_iff_bit_4: "r AND 16 \<noteq> 0 \<longleftrightarrow> bit r 4" for r :: int
  using and_exp_eq_0_iff_not_bit [of r 4] by simp

section \<open>The internal temperature\<close>

text \<open>
  Claim C7. The getter \<^verbatim>\<open>internalTemp\<close> issues exactly one transaction, a read of
  register 0x00 of the device, and returns the value read unchanged; no register
  changes.
\<close>

theorem internalTemp_single_read:
  "internalTemp b =
     (regs b (0x4C, 0x00), b\<lparr>trace := trace b @ [ReadByteData 0x4C 0x00]\<rparr>)"
  by (simp add: internalTemp_def priv_read_def read_byte_data_def
      INTERNAL_TEMP_def I2CADDRESS_def)

section \<open>The device address\<close>

text \<open>
  Claim C8. Whatever operation of the handle runs, on whatever arguments and bus state, the
  transactions it adds to the trace (the old trace stays as its prefix) are all addressed to
  device 0x4C.
\<close>

theorem every_transaction_addresses_0x4C:
  "take (length (trace b)) (trace (perform op b)) = trace b \<and>
   (\<forall>e \<in> set (drop (length (trace b)) (trace (perform op b))). event_device e = 0x4C)"
proof -
  from perform_device [of op b] obtain es where
    "trace (perform op b) = trace b @ es" "\<forall>e\<in>set es. event_device e = 0x4C"
    by blast
  then show ?thesis by simp
qed

theorem every_transaction_addresses_0x4C_witness:
  "WriteByteData 0x4C 0x50 20 \<in>
     set (drop (length (trace idle_bus))
            (trace (perform (Op_fanControlLookupTable_setter [(20, 10)]) idle_bus))) \<and>
   list_all (\<lambda>e. event_device e = 0x4C)
     (drop (length (trace idle_bus))
        (trace (perform (Op_fanControlLookupTable_setter [(20, 10)]) idle_bus)))"
proof -
  let ?op = "Op_fanControlLookupTable_setter [(20, 10)]"
  have "trace (perform ?op idle_bus) = [WriteByteData 0x4C 0x50 20, WriteByteData 0x4C 0x51 10]"
    by (simp add: fanControlLookupTable_setter_def py_index_def REG_LOOKUP_T_eq
        REG_LOOKUP_S_eq trace_priv_write idle_bus_def)
  then have m: "WriteByteData 0x4C 0x50 20 \<in>
      set (drop (length (trace idle_bus)) (trace (perform ?op idle_bus)))"
    by (simp add: idle_bus_def)
  from every_transaction_addresses_0x4C [of idle_bus ?op, THEN conjunct2] m
  show ?thesis
    by (simp only: list_all_iff simp_thms)
qed

section \<open>The configuration register\<close>

text \<open>
  Claim C2, as amended. For each of the eight flag masks \<open>F\<close> of the configuration
  register: \<^verbatim>\<open>_writeBool\<close> with true stores the byte read OR \<open>F\<close>, with false the
  byte read AND the complement of \<open>F\<close>; either write leaves every bit other than the
  flag's as it was; enabling and then disabling the flag yields the original byte with the
  flag cleared, which is the original byte when the flag was clear to begin with. (A flag
  that was set at the start is clear at the end, so the byte is not restored then.)
\<close>

theorem writeBool_flag_roundtrip:
  assumes "F \<in> set CONFIG_FLAGS"
  shows "regs (priv_writeBool REG_CONFIG F False (priv_writeBool REG_CONFIG F True b)) (0x4C, 0x03) =
           regs b (0x4C, 0x03) AND NOT F \<and>
         (regs b (0x4C, 0x03) AND F = 0 \<longrightarrow>
            regs (priv_writeBool REG_CONFIG F False (priv_writeBool REG_CONFIG F True b)) (0x4C, 0x03) =
              regs b (0x4C, 0x03)) \<and>
         regs (priv_writeBool REG_CONFIG F True b) (0x4C, 0x03) = regs b (0x4C, 0x03) OR F \<and>
         regs (priv_writeBool REG_CONFIG F False b) (0x4C, 0x03) = regs b (0x4C, 0x03) AND NOT F \<and>
         (\<forall>v n. 2 ^ n \<noteq> F \<longrightarrow>
            bit (regs (priv_writeBool REG_CONFIG F v b) (0x4C, 0x03)) n =
              bit (regs b (0x4C, 0x03)) n)"
proof -
  from assms obtain k where F: "F = 2 ^ k" using config_flag_power by blast
  have 1: "regs (priv_writeBool REG_CONFIG F False (priv_writeBool REG_CONFIG F True b)) (0x4C, 0x03) =
           regs b (0x4C, 0x03) AND NOT F"
    by (simp add: regs_priv_writeBool REG_CONFIG_def set_then_clear)
  have 2: "regs (priv_writeBool REG_CONFIG F False (priv_writeBool REG_CONFIG F True b)) (0x4C, 0x03) =
              regs b (0x4C, 0x03)" if "regs b (0x4C, 0x03) AND F = 0"
    using that by (simp add: 1 clear_of_clear)
  have 3: "regs (priv_writeBool REG_CONFIG F True b) (0x4C, 0x03) = regs b (0x4C, 0x03) OR F"
    and 4: "regs (priv_writeBool REG_CONFIG F False b) (0x4C, 0x03) = regs b (0x4C, 0x03) AND NOT F"
    by (simp_all add: regs_priv_writeBool REG_CONFIG_def)
  have 5: "bit (regs (priv_writeBool REG_CONFIG F v b) (0x4C, 0x03)) n = bit (regs b (0x4C, 0x03)) n"
    if "2 ^ n \<noteq> F" for v n
  proof -
    from that F have "n \<noteq> k" by auto
    with 3 4 show ?thesis
      unfolding F by (cases v) (simp_all add: bit_set_flag bit_clear_flag)
  qed
  from 1 2 3 4 5 show ?thesis by blast
qed

theorem writeBool_flag_roundtrip_witness:
  "CONFIG_DAC \<in> set CONFIG_FLAGS \<and>
   regs (priv_write REG_CONFIG 0x25 idle_bus) (0x4C, 0x03) AND CONFIG_DAC = 0 \<and>
   regs (priv_writeBool REG_CONFIG CONFIG_DAC False
          (priv_writeBool REG_CONFIG CONFIG_DAC True (priv_write REG_CONFIG 0x25 idle_bus)))
        (0x4C, 0x03) = 0x25"
proof -
  let ?b = "priv_write REG_CONFIG 0x25 idle_bus"
  have f: "CONFIG_DAC \<in> set CONFIG_FLAGS" by (simp add: CONFIG_FLAGS_def)
  have r: "regs ?b (0x4C, 0x03) = 0x25"
    by (simp add: regs_priv_write REG_CONFIG_def)
  have c: "regs ?b (0x4C, 0x03) AND CONFIG_DAC = 0"
    by (simp add: r CONFIG_DAC_def)
  from writeBool_flag_roundtrip [OF f, of ?b, THEN conjunct2, THEN conjunct1, rule_format, OF c]
    f r c show ?thesis by simp
qed

text \<open>
  The claim as first stated fails where the flag is already set: from the configuration
  byte 0x10, enabling and then disabling \<^verbatim>\<open>CONFIG_DAC\<close> leaves 0x00.
\<close>

theorem writeBool_flag_roundtrip_counterexample:
  "CONFIG_DAC \<in> set CONFIG_FLAGS \<and>
   regs (priv_write REG_CONFIG 0x10 idle_bus) (0x4C, 0x03) = 0x10 \<and>
   regs (priv_writeBool REG_CONFIG CONFIG_DAC False
          (priv_writeBool REG_CONFIG CONFIG_DAC True (priv_write REG_CONFIG 0x10 idle_bus)))
        (0x4C, 0x03) = 0x00 \<and>
   regs (priv_writeBool REG_CONFIG CONFIG_DAC False
          (priv_writeBool REG_CONFIG CONFIG_DAC True (priv_write REG_CONFIG 0x10 idle_bus)))
        (0x4C, 0x03) \<noteq> regs (priv_write REG_CONFIG 0x10 idle_bus) (0x4C, 0x03)"
  by (simp add: CONFIG_FLAGS_def regs_priv_writeBool regs_priv_write REG_CONFIG_def
      CONFIG_DAC_def set_then_clear)

text \<open>
  Claim C3. The getter \<^verbatim>\<open>dacMode\<close> reads register 0x03 once and returns whether bit 4
  (mask 0x10) of it is set. The setter makes that bit equal to its argument, leaves every
  other bit of register 0x03 as it was, and changes no other register.
\<close>

theorem dacMode_single_bit:
  "dacMode b = (bit (regs b (0x4C, 0x03)) 4, b\<lparr>trace := trace b @ [ReadByteData 0x4C 0x03]\<rparr>) \<and>
   bit (regs (dacMode_setter v b) (0x4C, 0x03)) 4 = v \<and>
   (\<forall>n. n \<noteq> 4 \<longrightarrow>
      bit (regs (dacMode_setter v b) (0x4C, 0x03)) n = bit (regs b (0x4C, 0x03)) n) \<and>
   (\<forall>k. k \<noteq> (0x4C, 0x03) \<longrightarrow> regs (dacMode_setter v b) k = regs b k)"
proof -
  have p: "CONFIG_DAC = 2 ^ 4" by (simp add: CONFIG_DAC_def)
  have 1: "dacMode b =
      (bit (regs b (0x4C, 0x03)) 4, b\<lparr>trace := trace b @ [ReadByteData 0x4C 0x03]\<rparr>)"
    by (simp add: dacMode_def priv_read_eq REG_CONFIG_def CONFIG_DAC_def and_16_iff_bit_4)
  have r: "regs (dacMode_setter v b) (0x4C, 0x03) =
      (if v then regs b (0x4C, 0x03) OR 2 ^ 4 else regs b (0x4C, 0x03) AND NOT (2 ^ 4))"
    by (simp add: dacMode_setter_def regs_priv_writeBool REG_CONFIG_def p)
  have 2: "bit (regs (dacMode_setter v b) (0x4C, 0x03)) 4 = v"
    unfolding r by (cases v) (simp_all only: if_True if_False bit_set_flag bit_clear_flag, simp_all)
  have 3: "bit (regs (dacMode_setter v b) (0x4C, 0x03)) n = bit (regs b (0x4C, 0x03)) n"
    if "n \<noteq> 4" for n
    unfolding r using that
    by (cases v) (simp_all only: if_True if_False bit_set_flag bit_clear_flag, simp_all)
  have 4: "regs (dacMode_setter v b) k = regs b k" if "k \<noteq> (0x4C, 0x03)" for k
    using that by (simp add: dacMode_setter_def regs_priv_writeBool REG_CONFIG_def)
  from 1 2 3 4 show ?thesis by blast
qed

theorem dacMode_single_bit_witness:
  "regs (priv_write REG_CONFIG 0x25 idle_bus) (0x4C, 0x03) = 0x25 \<and>
   fst (dacMode (priv_write REG_CONFIG 0x25 idle_bus)) = False \<and>
   fst (dacMode (dacMode_setter True (priv_write REG_CONFIG 0x25 idle_bus))) = True \<and>
   (5::nat) \<noteq> 4 \<and>
   bit (regs (dacMode_setter True (priv_write REG_CONFIG 0x25 idle_bus)) (0x4C, 0x03)) 5 \<and>
   (0x4C, 0x50) \<noteq> (0x4C::int, 0x03::int) \<and>
   regs (dacMode_setter True (priv_write REG_CONFIG 0x25 idle_bus)) (0x4C, 0x50) = 0"
proof -
  let ?b = "priv_write REG_CONFIG 0x25 idle_bus"
  have r: "regs ?b (0x4C, 0x03) = 0x25" and z: "regs ?b (0x4C, 0x50) = 0"
    by (simp_all add: regs_priv_write REG_CONFIG_def idle_bus_def)
  have b5: "bit (0x25::int) 5" and b4: "\<not> bit (0x25::int) 4"
    by simp_all
  note t = dacMode_single_bit [of ?b]
  have n: "(5::nat) \<noteq> 4" and k: "(0x4C, 0x50) \<noteq> (0x4C::int, 0x03::int)" by simp_all
  from t [THEN conjunct1] have "fst (dacMode ?b) = False"
    by (simp add: r b4)
  moreover from t [of True, THEN conjunct2, THEN conjunct1] dacMode_single_bit [of "dacMode_setter True ?b", THEN conjunct1]
  have "fst (dacMode (dacMode_setter True ?b)) = True"
    by simp
  moreover from t [of True, THEN conjunct2, THEN conjunct2, THEN conjunct1, rule_format, OF n]
  have "bit (regs (dacMode_setter True ?b) (0x4C, 0x03)) 5"
    by (simp add: r b5)
  moreover from t [of True, THEN conjunct2, THEN conjunct2, THEN conjunct2, rule_format, OF k]
  have "regs (dacMode_setter True ?b) (0x4C, 0x50) = 0"
    by (simp add: z)
  ultimately show ?thesis using r by simp
qed

section \<open>The fan lookup table\<close>

text \<open>
  Claim C1 does not hold of the getter: after the setter has written the pair (20, 10) to
  slot 0 of a bus whose registers were all 0, the getter returns (20, 20) at index 0. Both
  components of each pair it returns are read from the temperature register of the slot;
  the speed register is never read.
\<close>

theorem lut_getter_repeats_temperature:
  "fst (fanControlLookupTable (snd (fanControlLookupTable_setter [(20, 10)] idle_bus))) =
     Inr [(20, 20), (0, 0), (0, 0), (0, 0), (0, 0), (0, 0), (0, 0), (0, 0)]"
proof -
  let ?b = "snd (fanControlLookupTable_setter [(20, 10)] idle_bus)"
  have r: "regs ?b = (\<lambda>_. 0)((0x4C, 0x50) := 20, (0x4C, 0x51) := 10)"
    by (simp add: fanControlLookupTable_setter_def py_index_def REG_LOOKUP_T_eq
        REG_LOOKUP_S_eq regs_priv_write idle_bus_def)
  have "\<forall>i\<in>set [0..<8]. i < (8::nat)" by simp
  from lut_get_loop_value [OF this, of ?b, THEN conjunct1] show ?thesis
    unfolding fanControlLookupTable_def r by (simp add: upt_0_8)
qed

text \<open>
  Claim C4. For a sequence of at most 8 pairs the setter of \<^verbatim>\<open>fanControlLookupTable\<close>
  returns normally and issues, in index order, for pair \<open>i\<close> a write of its temperature
  to register \<open>0x50 + 2 * i\<close> followed by a write of its speed to register
  \<open>0x51 + 2 * i\<close>, and nothing else.
\<close>

theorem lut_setter_write_order:
  assumes "length val \<le> 8"
  shows "fst (fanControlLookupTable_setter val b) = Inr () \<and>
         trace (snd (fanControlLookupTable_setter val b)) =
           trace b @ concat (map (\<lambda>i. [WriteByteData 0x4C (0x50 + 2 * int i) (fst (val ! i)),
                                        WriteByteData 0x4C (0x51 + 2 * int i) (snd (val ! i))])
                              [0..<length val])"
  using assms by (simp add: lut_set_loop_result lut_set_loop_trace min_def)

theorem lut_setter_write_order_witness:
  "length [(20, 10), (30, 20::int)] \<le> (8::nat) \<and>
   fst (fanControlLookupTable_setter [(20, 10), (30, 20)] idle_bus) = Inr () \<and>
   trace (snd (fanControlLookupTable_setter [(20, 10), (30, 20)] idle_bus)) =
     [WriteByteData 0x4C 0x50 20, WriteByteData 0x4C 0x51 10,
      WriteByteData 0x4C 0x52 30, WriteByteData 0x4C 0x53 20]"
  using lut_setter_write_order [of "[(20, 10), (30, 20)]" idle_bus]
  by (simp add: idle_bus_def upt_rec)

text \<open>
  Claim C5. For fewer than 8 pairs the setter returns normally; the temperature and speed
  registers of every slot from \<open>length val\<close> up to 7 hold what they held before, and
  every transaction the call issues is a write to a register of a slot below
  \<open>length val\<close>.
\<close>

theorem lut_setter_partial_frame:
  assumes "length val < 8"
  shows "fst (fanControlLookupTable_setter val b) = Inr () \<and>
         (\<forall>j. length val \<le> j \<and> j < 8 \<longrightarrow>
            regs (snd (fanControlLookupTable_setter val b)) (0x4C, 0x50 + 2 * int j) =
              regs b (0x4C, 0x50 + 2 * int j) \<and>
            regs (snd (fanControlLookupTable_setter val b)) (0x4C, 0x51 + 2 * int j) =
              regs b (0x4C, 0x51 + 2 * int j)) \<and>
         (\<forall>e \<in> set (drop (length (trace b)) (trace (snd (fanControlLookupTable_setter val b)))).
            \<exists>i < length val. \<exists>v.
              e = WriteByteData 0x4C (0x50 + 2 * int i) v \<or>
              e = WriteByteData 0x4C (0x51 + 2 * int i) v)"
proof (intro conjI allI impI)
  show "fst (fanControlLookupTable_setter val b) = Inr ()"
    using assms by (simp add: lut_set_loop_result)
next
  fix j
  assume j: "length val \<le> j \<and> j < 8"
  then have "\<forall>i\<in>set [0..<length val].
      (0x4C, 0x50 + 2 * int j) \<noteq> (0x4C::int, 0x50 + 2 * int i) \<and>
      (0x4C, 0x50 + 2 * int j) \<noteq> (0x4C::int, 0x51 + 2 * int i)"
    by (auto simp: slot_addr_neq)
  then show "regs (snd (fanControlLookupTable_setter val b)) (0x4C, 0x50 + 2 * int j) =
      regs b (0x4C, 0x50 + 2 * int j)"
    using assms by (simp add: lut_set_loop_result lut_set_loop_frame min_def)
  from j have "\<forall>i\<in>set [0..<length val].
      (0x4C, 0x51 + 2 * int j) \<noteq> (0x4C::int, 0x50 + 2 * int i) \<and>
      (0x4C, 0x51 + 2 * int j) \<noteq> (0x4C::int, 0x51 + 2 * int i)"
    by (auto simp: slot_addr_neq)
  then show "regs (snd (fanControlLookupTable_setter val b)) (0x4C, 0x51 + 2 * int j) =
      regs b (0x4C, 0x51 + 2 * int j)"
    using assms by (simp add: lut_set_loop_result lut_set_loop_frame min_def)
next
  have "trace (snd (fanControlLookupTable_setter val b)) =
      trace b @ concat (map (\<lambda>i. [WriteByteData 0x4C (0x50 + 2 * int i) (fst (val ! i)),
                                   WriteByteData 0x4C (0x51 + 2 * int i) (snd (val ! i))])
                         [0..<length val])"
    using assms by (simp add: lut_set_loop_result lut_set_loop_trace min_def)
  then show "\<forall>e \<in> set (drop (length (trace b)) (trace (snd (fanControlLookupTable_setter val b)))).
            \<exists>i < length val. \<exists>v.
              e = WriteByteData 0x4C (0x50 + 2 * int i) v \<or>
              e = WriteByteData 0x4C (0x51 + 2 * int i) v"
    by auto
qed

theorem lut_setter_partial_frame_witness:
  "length [(20, 10), (30, 20::int)] < (8::nat) \<and>
   length [(20, 10), (30, 20::int)] \<le> (5::nat) \<and> (5::nat) < 8 \<and>
   regs (snd (fanControlLookupTable_setter [(20, 10), (30, 20)]
               (snd (fanControlLookupTable_setter
                 [(1, 2), (3, 4), (5, 6), (7, 8), (9, 10), (11, 12), (13, 14), (15, 16)] idle_bus))))
        (0x4C, 0x5A) = 11 \<and>
   regs (snd (fanControlLookupTable_setter [(20, 10), (30, 20)]
               (snd (fanControlLookupTable_setter
                 [(1, 2), (3, 4), (5, 6), (7, 8), (9, 10), (11, 12), (13, 14), (15, 16)] idle_bus))))
        (0x4C, 0x5B) = 12"
proof -
  let ?full = "[(1, 2), (3, 4), (5, 6), (7, 8), (9, 10), (11, 12), (13, 14), (15, 16::int)]"
  let ?b = "snd (fanControlLookupTable_setter ?full idle_bus)"
  let ?b' = "snd (fanControlLookupTable_setter [(20, 10), (30, 20)] ?b)"
  have pre: "regs ?b (0x4C, 0x5A) = 11 \<and> regs ?b (0x4C, 0x5B) = 12"
    by (simp add: fanControlLookupTable_setter_def py_index_def REG_LOOKUP_T_eq
        REG_LOOKUP_S_eq regs_priv_write)
  have len: "length [(20, 10), (30, 20::int)] < (8::nat)" by simp
  have rng: "length [(20, 10), (30, 20::int)] \<le> 5 \<and> (5::nat) < 8" by simp
  from lut_setter_partial_frame [OF len, of ?b, THEN conjunct2, THEN conjunct1, rule_format, OF rng]
  have "regs ?b' (0x4C, 0x5A) = regs ?b (0x4C, 0x5A) \<and> regs ?b' (0x4C, 0x5B) = regs ?b (0x4C, 0x5B)"
    by simp
  with pre show ?thesis by simp
qed

text \<open>
  Claim C9. For more than 8 pairs the setter raises IndexError, and the bus is then in the
  state that the setter leaves for the first 8 pairs alone (which returns normally): the
  16 writes of slots 0 to 7 are in the trace, and the registers of those slots hold the
  first 8 pairs.
\<close>

theorem lut_setter_oversized:
  assumes "8 < length val"
  shows "fanControlLookupTable_setter val b =
           (Inl IndexError, snd (fanControlLookupTable_setter (take 8 val) b)) \<and>
         fst (fanControlLookupTable_setter (take 8 val) b) = Inr () \<and>
         trace (snd (fanControlLookupTable_setter val b)) =
           trace b @ concat (map (\<lambda>i. [WriteByteData 0x4C (0x50 + 2 * int i) (fst (val ! i)),
                                        WriteByteData 0x4C (0x51 + 2 * int i) (snd (val ! i))])
                              [0..<8]) \<and>
         (\<forall>i < 8.
            regs (snd (fanControlLookupTable_setter val b)) (0x4C, 0x50 + 2 * int i) = fst (val ! i) \<and>
            regs (snd (fanControlLookupTable_setter val b)) (0x4C, 0x51 + 2 * int i) = snd (val ! i))"
proof -
  have eq: "lut_set_loop [0..<8] (take 8 val) b = lut_set_loop [0..<8] val b"
    by (rule lut_set_loop_take) simp
  have all: "\<forall>i\<in>set [0..<8]. i < length val \<and> i < 8"
    using assms by simp
  have 1: "fanControlLookupTable_setter val b =
           (Inl IndexError, snd (fanControlLookupTable_setter (take 8 val) b))"
    using assms by (simp add: lut_set_loop_result [of val] lut_set_loop_result [of "take 8 val"] eq min_def)
  have 2: "fst (fanControlLookupTable_setter (take 8 val) b) = Inr ()"
    by (simp add: lut_set_loop_result [of "take 8 val"])
  have 3: "trace (snd (fanControlLookupTable_setter val b)) =
           trace b @ concat (map (\<lambda>i. [WriteByteData 0x4C (0x50 + 2 * int i) (fst (val ! i)),
                                        WriteByteData 0x4C (0x51 + 2 * int i) (snd (val ! i))])
                              [0..<8])"
    using assms lut_set_loop_trace [OF all, of b]
    by (simp add: lut_set_loop_result [of val] min_def)
  have 4: "regs (snd (fanControlLookupTable_setter val b)) (0x4C, 0x50 + 2 * int i) = fst (val ! i) \<and>
           regs (snd (fanControlLookupTable_setter val b)) (0x4C, 0x51 + 2 * int i) = snd (val ! i)"
    if "i < 8" for i
    using assms that lut_set_loop_stored [OF all, of i b]
    by (simp add: lut_set_loop_result [of val] min_def)
  from 1 2 3 4 show ?thesis by blast
qed


theorem lut_setter_oversized_witness:
  "8 < length [(1, 2), (3, 4), (5, 6), (7, 8), (9, 10), (11, 12), (13, 14), (15, 16), (17, 18::int)] \<and>
   fst (fanControlLookupTable_setter
         [(1, 2), (3, 4), (5, 6), (7, 8), (9, 10), (11, 12), (13, 14), (15, 16), (17, 18)]
         idle_bus) = Inl IndexError \<and>
   regs (snd (fanControlLookupTable_setter
         [(1, 2), (3, 4), (5, 6), (7, 8), (9, 10), (11, 12), (13, 14), (15, 16), (17, 18)]
         idle_bus)) (0x4C, 0x5E) = 15 \<and>
   regs (snd (fanControlLookupTable_setter
         [(1, 2), (3, 4), (5, 6), (7, 8), (9, 10), (11, 12), (13, 14), (15, 16), (17, 18)]
         idle_bus)) (0x4C, 0x5F) = 16"
proof -
  let ?nine = "[(1, 2), (3, 4), (5, 6), (7, 8), (9, 10), (11, 12), (13, 14), (15, 16), (17, 18::int)]"
  have len: "8 < length ?nine" by simp
  note t = lut_setter_oversized [OF len, of idle_bus]
  from t have "fst (fanControlLookupTable_setter ?nine idle_bus) = Inl IndexError"
    by simp
  moreover have "(7::nat) < 8" by simp
  from t [THEN conjunct2, THEN conjunct2, THEN conjunct2, rule_format, OF this]
  have "regs (snd (fanControlLookupTable_setter ?nine idle_bus)) (0x4C, 0x5E) = 15 \<and>
        regs (snd (fanControlLookupTable_setter ?nine idle_bus)) (0x4C, 0x5F) = 16"
    by simp
  ultimately show ?thesis by simp
qed




end
